theory Spec2Isabelle
  imports Main
begin

unbundle bit_operations_syntax

section \<open>Curve parameters (the \<open>_curve\<close> singleton of ECC.py)\<close>

definition curve_p :: int where
  "curve_p = 115792089210356248762697446949407573530086143415290314195533631308867097853951"

definition curve_order :: int where
  "curve_order = 115792089210356248762697446949407573529996955224135760342422259061068512044369"

definition curve_Gx :: int where
  "curve_Gx = 0x6b17d1f2e12c4247f8bce6e563a440f277037d812deb33a0f4a13945d898c296"

definition curve_Gy :: int where
  "curve_Gy = 0x4fe342e2fe1a7f9b8ee7eb4a7c0f9e162bce33576b315ececbb6406837bf51f5"

section \<open>Errors\<close>

text \<open>
  Every \<open>raise\<close> of ECC.py and every exception the interpreter raises on the way is a
  value: \<open>ValueError\<close> carries the message of the source.
\<close>

datatype error =
    ValueError string
  | TypeError
  | AttributeError
  | IndexError
  | AssertionError

section \<open>The big-integer collaborator\<close>

text \<open>
  Modelled from the spec: \<open>Integer.inverse(modulus)\<close> of \<open>Crypto.Math.Numbers\<close>, which is
  imported by ECC.py and is not part of the source at hand. The spec lists it as
  "modular inverse (\<open>inverse(modulus)\<close>, fails if not invertible)". The model runs the
  extended Euclidean algorithm and returns the inverse reduced into \<open>[0, modulus)\<close>; it
  fails with a \<open>ValueError\<close> when the greatest common divisor is not 1. ECC.py only
  ever passes the positive moduli \<open>_curve.p\<close> and \<open>_curve.order\<close>.
\<close>

function inverse_loop :: "int \<Rightarrow> int \<Rightarrow> int \<Rightarrow> int \<Rightarrow> int \<times> int" where
  "inverse_loop r_p r_n s_p s_n =
     (if 0 < r_n
      then inverse_loop r_n (r_p - (r_p div r_n) * r_n) s_n (s_p - (r_p div r_n) * s_n)
      else (r_p, s_p))"
  by pat_completeness auto
termination
proof (relation "measure (\<lambda>(r_p, r_n, s_p, s_n). nat r_n)")
  show "wf (measure (\<lambda>(r_p, r_n, s_p, s_n). nat r_n))" by simp
next
  fix r_p r_n s_p s_n :: int
  assume pos: "0 < r_n"
  have "r_p - (r_p div r_n) * r_n = r_p mod r_n"
    by (simp add: minus_div_mult_eq_mod)
  moreover have "0 \<le> r_p mod r_n" "r_p mod r_n < r_n"
    using pos by simp_all
  ultimately show "((r_n, r_p - (r_p div r_n) * r_n, s_n, s_p - (r_p div r_n) * s_n),
         (r_p, r_n, s_p, s_n)) \<in> measure (\<lambda>(r_p, r_n, s_p, s_n). nat r_n)"
    using pos by simp
qed

declare inverse_loop.simps [simp del]

definition Integer_inverse :: "int \<Rightarrow> int \<Rightarrow> error + int" where
  "Integer_inverse a modulus =
     (case inverse_loop a modulus 1 0 of
        (g, s) \<Rightarrow>
          if g \<noteq> 1 then Inl (ValueError ''No inverse value can be computed'')
          else Inr (s mod modulus))"

section \<open>Points (class \<open>EccPoint\<close>)\<close>

text \<open>
  An entry of the list \<open>_precomp\<close>: the integer 0 that fills the even slots, or a point
  object, of which the loop of \<open>multiply\<close> reads the two coordinates only.
\<close>

datatype precomp_entry = IntZero | PointEntry int int

text \<open>
  The object: the attributes \<open>_x\<close> and \<open>_y\<close>, and \<open>_precomp\<close>, which is absent
  (\<open>None\<close>) until the first \<open>multiply\<close> with a scalar above 1 sets it.
\<close>

record EccPoint =
  ecc_x :: int
  ecc_y :: int
  ecc_precomp :: "precomp_entry list option"

definition EccPoint_init :: "int \<Rightarrow> int \<Rightarrow> EccPoint" where
  "EccPoint_init x y = \<lparr>ecc_x = x, ecc_y = y, ecc_precomp = None\<rparr>"

text \<open>\<open>__eq__\<close>: the two coordinates, nothing else.\<close>

definition eq :: "EccPoint \<Rightarrow> EccPoint \<Rightarrow> bool" where
  "eq self point = (ecc_x self = ecc_x point \<and> ecc_y self = ecc_y point)"

definition is_point_at_infinity :: "EccPoint \<Rightarrow> bool" where
  "is_point_at_infinity self = (ecc_x self = 0 \<and> ecc_y self = 0)"

definition point_at_infinity :: EccPoint where
  "point_at_infinity = EccPoint_init 0 0"

definition copy :: "EccPoint \<Rightarrow> EccPoint" where
  "copy self = EccPoint_init (ecc_x self) (ecc_y self)"

text \<open>\<open>__neg__\<close>\<close>

definition neg :: "EccPoint \<Rightarrow> EccPoint" where
  "neg self =
     (if is_point_at_infinity self then point_at_infinity
      else EccPoint_init (ecc_x self) (curve_p - ecc_y self))"

text \<open>The properties \<open>x\<close> and \<open>y\<close>, which raise on the point at infinity.\<close>

definition x_of :: "EccPoint \<Rightarrow> error + int" where
  "x_of self =
     (if is_point_at_infinity self then Inl (ValueError ''Point at infinity'')
      else Inr (ecc_x self))"

definition y_of :: "EccPoint \<Rightarrow> error + int" where
  "y_of self =
     (if is_point_at_infinity self then Inl (ValueError ''Point at infinity'')
      else Inr (ecc_y self))"

text \<open>The loop \<open>while x3 < 0: x3 += _curve.p\<close> of \<open>double\<close> and \<open>add\<close>.\<close>

function add_p_while_negative :: "int \<Rightarrow> int" where
  "add_p_while_negative x3 =
     (if x3 < 0 then add_p_while_negative (x3 + curve_p) else x3)"
  by pat_completeness auto
termination
  by (relation "measure (\<lambda>x3. nat (- x3))") (simp_all add: curve_p_def)

declare add_p_while_negative.simps [simp del]

definition double :: "EccPoint \<Rightarrow> error + EccPoint" where
  "double self =
     (if ecc_y self = 0 then Inr point_at_infinity
      else
        case Integer_inverse (push_bit 1 (ecc_y self)) curve_p of
          Inl e \<Rightarrow> Inl e
        | Inr iv \<Rightarrow>
            let common = (((ecc_x self)\<^sup>2 mod curve_p) * 3 - 3) * iv mod curve_p;
                x3 = add_p_while_negative ((common\<^sup>2 mod curve_p) - ecc_x self - ecc_x self);
                y3 = ((ecc_x self - x3) * common - ecc_y self) mod curve_p
            in Inr (EccPoint_init x3 y3))"

definition add :: "EccPoint \<Rightarrow> EccPoint \<Rightarrow> error + EccPoint" where
  "add self point =
     (if is_point_at_infinity self then Inr (copy point)
      else if is_point_at_infinity point then Inr (copy self)
      else if eq self point then double self
      else if ecc_x self = ecc_x point then Inr point_at_infinity
      else
        case Integer_inverse (ecc_x point - ecc_x self) curve_p of
          Inl e \<Rightarrow> Inl e
        | Inr iv \<Rightarrow>
            let common = (ecc_y point - ecc_y self) * iv mod curve_p;
                x3 = add_p_while_negative ((common\<^sup>2 mod curve_p) - ecc_x self - ecc_x point);
                y3 = ((ecc_x self - x3) * common - ecc_y self) mod curve_p
            in Inr (EccPoint_init x3 y3))"

subsection \<open>Scalar multiplication\<close>

definition WINDOW_BITS :: nat where "WINDOW_BITS = 4"
definition window_high :: int where "window_high = push_bit WINDOW_BITS 1"
definition window_low :: int where "window_low = push_bit (WINDOW_BITS - 1) 1"
definition window_mask :: int where "window_mask = window_high - 1"

text \<open>One digit of the recoding: the body of the \<open>while scalar_int > 0\<close> loop before the shift.\<close>

definition naf_digit :: "int \<Rightarrow> int" where
  "naf_digit scalar_int =
     (if scalar_int AND 1 \<noteq> 0
      then (let di = scalar_int AND window_mask
            in if window_low \<le> di then di - window_high else di)
      else 0)"

lemma window_consts:
  "window_high = 16" "window_low = 8" "window_mask = 15"
  by (simp_all add: window_high_def window_low_def window_mask_def WINDOW_BITS_def)

lemma and_15_mod: "(k::int) AND 15 = k mod 16"
proof -
  have "k AND mask 4 = take_bit 4 k" by (simp add: take_bit_eq_mask)
  then show ?thesis by (simp add: take_bit_eq_mod mask_eq_exp_minus_1)
qed

lemma and_1_mod: "(k::int) AND 1 = k mod 2"
  by (simp add: and_one_eq)

lemma naf_digit_bounds: "- 7 \<le> naf_digit k \<and> naf_digit k \<le> 7"
proof -
  have "0 \<le> k mod 16" "k mod 16 < 16" by simp_all
  moreover have "k mod 2 \<noteq> 0 \<Longrightarrow> k mod 16 \<noteq> 8"
    by presburger
  ultimately show ?thesis
    unfolding naf_digit_def window_consts and_15_mod and_1_mod Let_def
    by auto
qed

lemma naf_digit_cong: "(k - naf_digit k) mod 2 = 0"
  unfolding naf_digit_def window_consts and_15_mod and_1_mod Let_def
  by (auto; presburger)

lemma naf_digit_small: "0 < k \<Longrightarrow> k < 8 \<Longrightarrow> naf_digit k \<noteq> 0 \<Longrightarrow> naf_digit k = k"
  unfolding naf_digit_def window_consts and_15_mod and_1_mod Let_def
  by (auto split: if_splits)

lemma naf_digit_le: "0 < k \<Longrightarrow> naf_digit k \<le> k"
proof -
  assume pos: "0 < k"
  have "k mod 16 \<le> k" using pos by (simp add: zmod_le_nonneg_dividend)
  then show ?thesis
    using pos unfolding naf_digit_def window_consts and_15_mod and_1_mod Let_def
    by auto
qed

text \<open>
  The recoding loop: \<open>naf\<close> grows by \<open>append\<close>, least significant digit first.
\<close>

function naf_loop :: "int \<Rightarrow> int list \<Rightarrow> int list" where
  "naf_loop scalar_int naf =
     (if 0 < scalar_int
      then naf_loop (drop_bit 1 (scalar_int - naf_digit scalar_int)) (naf @ [naf_digit scalar_int])
      else naf)"
  by pat_completeness auto
termination
proof (relation "measure (\<lambda>(scalar_int, naf). nat scalar_int)")
  show "wf (measure (\<lambda>(scalar_int, naf). nat scalar_int))" by simp
next
  fix scalar_int :: int and naf :: "int list"
  assume pos: "0 < scalar_int"
  have shift: "drop_bit 1 (scalar_int - naf_digit scalar_int) = (scalar_int - naf_digit scalar_int) div 2"
    by (simp add: drop_bit_eq_div)
  have "(scalar_int - naf_digit scalar_int) div 2 < scalar_int"
  proof (cases "scalar_int < 8")
    case True
    show ?thesis
    proof (cases "naf_digit scalar_int = 0")
      case True
      then show ?thesis using pos by simp
    next
      case False
      then have "naf_digit scalar_int = scalar_int"
        using naf_digit_small pos \<open>scalar_int < 8\<close> by blast
      then show ?thesis using pos by simp
    qed
  next
    case False
    then show ?thesis using naf_digit_bounds [of scalar_int] by linarith
  qed
  moreover have "0 \<le> (scalar_int - naf_digit scalar_int) div 2"
    using naf_digit_le [OF pos] by simp
  ultimately show "((drop_bit 1 (scalar_int - naf_digit scalar_int), naf @ [naf_digit scalar_int]),
        (scalar_int, naf)) \<in> measure (\<lambda>(scalar_int, naf). nat scalar_int)"
    using pos shift by simp
qed

declare naf_loop.simps [simp del]


definition naf_of :: "int \<Rightarrow> int list" where
  "naf_of scalar = rev (naf_loop scalar [])"

text \<open>
  The table \<open>precomp\<close> as \<open>multiply\<close> builds it when the point has none: slots 0..7
  hold \<open>0, 1P, 2P, 3P, 0, 5P, 0, 7P\<close>, and \<open>[-x for x in precomp[:0:-1]]\<close> appends the
  negations of slots 7 down to 1 (the negation of the integer 0 is 0).
\<close>

definition entry_of :: "EccPoint \<Rightarrow> precomp_entry" where
  "entry_of pt = PointEntry (ecc_x pt) (ecc_y pt)"

fun neg_entry :: "precomp_entry \<Rightarrow> precomp_entry" where
  "neg_entry IntZero = IntZero"
| "neg_entry (PointEntry x y) = entry_of (neg (EccPoint_init x y))"

definition build_precomp :: "EccPoint \<Rightarrow> error + precomp_entry list" where
  "build_precomp self =
     (case double self of
        Inl e \<Rightarrow> Inl e
      | Inr p2 \<Rightarrow>
          (case add p2 self of
             Inl e \<Rightarrow> Inl e
           | Inr p3 \<Rightarrow>
               (case add p2 p3 of
                  Inl e \<Rightarrow> Inl e
                | Inr p5 \<Rightarrow>
                    (case add p2 p5 of
                       Inl e \<Rightarrow> Inl e
                     | Inr p7 \<Rightarrow>
                         (let precomp = [IntZero, entry_of self, entry_of p2, entry_of p3,
                                         IntZero, entry_of p5, IntZero, entry_of p7]
                          in Inr (precomp @ map neg_entry (rev (tl precomp))))))))"

text \<open>\<open>precomp[x]\<close>: a negative index counts from the end of the list.\<close>

definition precomp_get :: "precomp_entry list \<Rightarrow> int \<Rightarrow> error + precomp_entry" where
  "precomp_get precomp x =
     (let n = int (length precomp); j = (if x < 0 then n + x else x)
      in if 0 \<le> j \<and> j < n then Inr (precomp ! nat j) else Inl IndexError)"

text \<open>\<open>result.add(precomp[x])\<close>: on the integer 0 the call of a point method fails.\<close>

definition add_entry :: "EccPoint \<Rightarrow> precomp_entry \<Rightarrow> error + EccPoint" where
  "add_entry result e =
     (case e of
        IntZero \<Rightarrow> Inl AttributeError
      | PointEntry x y \<Rightarrow> add result (EccPoint_init x y))"

text \<open>The main loop \<open>for x in naf\<close>.\<close>

fun mult_loop :: "precomp_entry list \<Rightarrow> EccPoint \<Rightarrow> int list \<Rightarrow> error + EccPoint" where
  "mult_loop precomp result [] = Inr result"
| "mult_loop precomp result (x # naf) =
     (case double result of
        Inl e \<Rightarrow> Inl e
      | Inr doubled \<Rightarrow>
          if x \<noteq> 0
          then (case precomp_get precomp x of
                  Inl e \<Rightarrow> Inl e
                | Inr entry \<Rightarrow>
                    (case add_entry doubled entry of
                       Inl e \<Rightarrow> Inl e
                     | Inr summed \<Rightarrow> mult_loop precomp summed naf))
          else mult_loop precomp doubled naf)"

text \<open>
  \<open>multiply\<close> returns the result (or the error raised) and the point object as the call
  leaves it: \<open>self._precomp\<close> is assigned once the table is built, before the main loop.
\<close>

definition multiply :: "EccPoint \<Rightarrow> int \<Rightarrow> (error + EccPoint) \<times> EccPoint" where
  "multiply self scalar =
     (if scalar < 0
      then (Inl (ValueError ''Scalar multiplication only defined for non-negative integers''), self)
      else if scalar = 0 \<or> is_point_at_infinity self then (Inr point_at_infinity, self)
      else if scalar = 1 then (Inr (copy self), self)
      else
        (case (case ecc_precomp self of
                 Some cached \<Rightarrow> Inr cached
               | None \<Rightarrow> build_precomp self) of
           Inl e \<Rightarrow> (Inl e, self)
         | Inr precomp \<Rightarrow>
             (mult_loop precomp point_at_infinity (naf_of scalar),
              self\<lparr>ecc_precomp := Some precomp\<rparr>)))"

definition curve_G :: EccPoint where
  "curve_G = EccPoint_init curve_Gx curve_Gy"

section \<open>Keys (class \<open>EccKey\<close>)\<close>

record EccKey =
  key_curve :: "string option"
  key_d :: "int option"
  key_point :: "EccPoint option"

text \<open>\<open>__init__\<close>: the keyword arguments \<open>curve\<close>, \<open>d\<close> and \<open>point\<close>, each absent by default.\<close>

definition EccKey_init :: "string option \<Rightarrow> int option \<Rightarrow> EccPoint option \<Rightarrow> error + EccKey" where
  "EccKey_init curve d point =
     (if curve \<noteq> Some ''P-256'' then Inl (ValueError ''Unsupported curve (%s)'')
      else case d of
        None \<Rightarrow>
          (case point of
             None \<Rightarrow> Inl (ValueError ''Either private or public ECC component must be specified'')
           | Some pt \<Rightarrow> Inr \<lparr>key_curve = curve, key_d = d, key_point = point\<rparr>)
      | Some dv \<Rightarrow>
          if 1 \<le> dv \<and> dv < curve_order
          then Inr \<lparr>key_curve = curve, key_d = d, key_point = point\<rparr>
          else Inl (ValueError ''Invalid ECC private component''))"

definition has_private :: "EccKey \<Rightarrow> bool" where
  "has_private self = (key_d self \<noteq> None)"

text \<open>The property \<open>d\<close>.\<close>

definition d_of :: "EccKey \<Rightarrow> error + int" where
  "d_of self =
     (case key_d self of
        None \<Rightarrow> Inl (ValueError ''This is not a private ECC key'')
      | Some dv \<Rightarrow> Inr dv)"

text \<open>
  The property \<open>pointQ\<close>: the stored point, or \<open>G.multiply(d)\<close>. A key with neither
  component is never constructed; there the comparison of \<open>None\<close> with 0 in \<open>multiply\<close>
  is a type error.
\<close>

definition pointQ :: "EccKey \<Rightarrow> error + EccPoint" where
  "pointQ self =
     (case key_point self of
        Some pt \<Rightarrow> Inr pt
      | None \<Rightarrow>
          (case key_d self of
             None \<Rightarrow> Inl TypeError
           | Some dv \<Rightarrow> fst (multiply curve_G dv)))"

text \<open>
  \<open>_sign(z, k)\<close>, statement by statement: the assertion, \<open>r\<close>, then \<open>s\<close>, whose left
  factor \<open>k.inverse(order)\<close> is evaluated before \<open>self._d * r\<close>; with \<open>_d\<close> absent that
  product of \<open>None\<close> and an integer is a type error.
\<close>

definition sign :: "EccKey \<Rightarrow> int \<Rightarrow> int \<Rightarrow> error + (int \<times> int)" where
  "sign self z k =
     (if \<not> (0 < k \<and> k < curve_order) then Inl AssertionError
      else case fst (multiply curve_G k) of
        Inl e \<Rightarrow> Inl e
      | Inr kG \<Rightarrow>
          (case x_of kG of
             Inl e \<Rightarrow> Inl e
           | Inr xr \<Rightarrow>
               (let r = xr mod curve_order
                in case Integer_inverse k curve_order of
                     Inl e \<Rightarrow> Inl e
                   | Inr kinv \<Rightarrow>
                       (case key_d self of
                          None \<Rightarrow> Inl TypeError
                        | Some dv \<Rightarrow> Inr (r, kinv * (z + dv * r) mod curve_order)))))"

text \<open>\<open>_verify(z, rs)\<close> with \<open>rs = (r, s)\<close>.\<close>

definition verify :: "EccKey \<Rightarrow> int \<Rightarrow> int \<times> int \<Rightarrow> error + bool" where
  "verify self z rs =
     (case Integer_inverse (snd rs) curve_order of
        Inl e \<Rightarrow> Inl e
      | Inr sinv \<Rightarrow>
          (case fst (multiply curve_G ((sinv * z) mod curve_order)) of
             Inl e \<Rightarrow> Inl e
           | Inr point1 \<Rightarrow>
               (case pointQ self of
                  Inl e \<Rightarrow> Inl e
                | Inr q \<Rightarrow>
                    (case fst (multiply q ((sinv * fst rs) mod curve_order)) of
                       Inl e \<Rightarrow> Inl e
                     | Inr point2 \<Rightarrow>
                         (case add point1 point2 of
                            Inl e \<Rightarrow> Inl e
                          | Inr pt \<Rightarrow>
                              (case x_of pt of
                                 Inl e \<Rightarrow> Inl e
                               | Inr xr \<Rightarrow> Inr (xr = fst rs)))))))"

text \<open>\<open>public_key()\<close>\<close>

definition public_key :: "EccKey \<Rightarrow> error + EccKey" where
  "public_key self =
     (case pointQ self of
        Inl e \<Rightarrow> Inl e
      | Inr q \<Rightarrow> EccKey_init (Some ''P-256'') None (Some q))"


section \<open>Properties of the collaborator and of the point operations\<close>


lemma inverse_loop_gcd:
  "0 < r_n \<or> (r_n = 0 \<and> 0 \<le> r_p) \<Longrightarrow> fst (inverse_loop r_p r_n s_p s_n) = gcd r_p r_n"
proof (induction r_p r_n s_p s_n rule: inverse_loop.induct)
  case (1 r_p r_n s_p s_n)
  show ?case
  proof (cases "0 < r_n")
    case True
    have m: "r_p - (r_p div r_n) * r_n = r_p mod r_n"
      by (simp add: minus_div_mult_eq_mod)
    have pre: "0 < r_p mod r_n \<or> (r_p mod r_n = 0 \<and> 0 \<le> r_n)"
      using True pos_mod_sign [of r_n r_p] by linarith
    have "fst (inverse_loop r_p r_n s_p s_n) =
          fst (inverse_loop r_n (r_p mod r_n) s_n (s_p - (r_p div r_n) * s_n))"
      using True by (subst inverse_loop.simps) (simp add: m)
    also have "\<dots> = gcd r_n (r_p mod r_n)"
      using "1.IH" [OF True] pre by (simp add: m)
    also have "\<dots> = gcd r_p r_n"
      using gcd_red_int [of r_p r_n] by simp
    finally show ?thesis .
  next
    case False
    then show ?thesis using "1.prems" by (subst inverse_loop.simps) simp
  qed
qed

lemma inverse_loop_bezout:
  "m dvd (r_p - s_p * a) \<Longrightarrow> m dvd (r_n - s_n * a) \<Longrightarrow>
   m dvd (fst (inverse_loop r_p r_n s_p s_n) - snd (inverse_loop r_p r_n s_p s_n) * a)"
proof (induction r_p r_n s_p s_n rule: inverse_loop.induct)
  case (1 r_p r_n s_p s_n)
  show ?case
  proof (cases "0 < r_n")
    case True
    define q where "q = r_p div r_n"
    have "m dvd ((r_p - s_p * a) - q * (r_n - s_n * a))"
      using "1.prems" by (simp add: dvd_diff)
    moreover have "(r_p - s_p * a) - q * (r_n - s_n * a) = (r_p - q * r_n) - (s_p - q * s_n) * a"
      by (simp add: algebra_simps)
    ultimately have "m dvd ((r_p - q * r_n) - (s_p - q * s_n) * a)" by simp
    then have "m dvd (fst (inverse_loop r_n (r_p - r_p div r_n * r_n) s_n (s_p - r_p div r_n * s_n)) -
        snd (inverse_loop r_n (r_p - r_p div r_n * r_n) s_n (s_p - r_p div r_n * s_n)) * a)"
      using "1.IH" [OF True "1.prems"(2)] unfolding q_def by simp
    moreover have "inverse_loop r_p r_n s_p s_n =
        inverse_loop r_n (r_p - r_p div r_n * r_n) s_n (s_p - r_p div r_n * s_n)"
      using True by (subst inverse_loop.simps) simp
    ultimately show ?thesis by simp
  next
    case False
    then have "inverse_loop r_p r_n s_p s_n = (r_p, s_p)"
      by (subst inverse_loop.simps) simp
    then show ?thesis using "1.prems" by simp
  qed
qed

lemma Integer_inverse_cases:
  assumes "0 < m"
  shows "Integer_inverse a m =
     (if gcd a m = 1 then Inr (snd (inverse_loop a m 1 0) mod m)
      else Inl (ValueError ''No inverse value can be computed''))"
proof -
  obtain g s where gs: "inverse_loop a m 1 0 = (g, s)"
    by (cases "inverse_loop a m 1 0") blast
  have "g = gcd a m"
    using inverse_loop_gcd [of m a 1 0] assms gs by simp
  then show ?thesis
    by (simp add: Integer_inverse_def gs)
qed

lemma Integer_inverse_correct:
  assumes "1 < m" and "Integer_inverse a m = Inr i"
  shows "0 \<le> i \<and> i < m \<and> a * i mod m = 1"
proof -
  have pos: "0 < m" using assms(1) by simp
  have g: "gcd a m = 1" and i: "i = snd (inverse_loop a m 1 0) mod m"
    using assms(2) Integer_inverse_cases [OF pos, of a] by (auto split: if_splits)
  have "fst (inverse_loop a m 1 0) = 1"
    using inverse_loop_gcd [of m a 1 0] pos g by simp
  moreover have "m dvd (fst (inverse_loop a m 1 0) - snd (inverse_loop a m 1 0) * a)"
    by (rule inverse_loop_bezout) simp_all
  ultimately have "m dvd (1 - snd (inverse_loop a m 1 0) * a)" by simp
  then have "(1 - snd (inverse_loop a m 1 0) * a) mod m = 0" by (simp add: mod_eq_0_iff_dvd)
  then have "(snd (inverse_loop a m 1 0) * a) mod m = 1 mod m"
    by (metis mod_eq_dvd_iff dvd_eq_mod_eq_0)
  then have "a * i mod m = 1 mod m"
    unfolding i by (simp add: mod_mult_right_eq mult.commute)
  then show ?thesis using assms(1) i pos by simp
qed


lemma curve_p_gt_1: "1 < curve_p" by (simp add: curve_p_def)

lemma Integer_inverse_dvd:
  assumes "1 < m" and "Integer_inverse a m = Inr i"
  shows "m dvd (a * i - 1)"
proof -
  have "a * i mod m = 1 mod m"
    using Integer_inverse_correct [OF assms] assms(1) by simp
  then show ?thesis by (simp add: mod_eq_dvd_iff)
qed

lemma Integer_inverse_coprime:
  assumes "1 < m"
  shows "(\<exists>i. Integer_inverse a m = Inr i) \<longleftrightarrow> gcd a m = 1"
  using Integer_inverse_cases [of m a] assms by auto

lemma Integer_inverse_uminus_fail:
  assumes "1 < m" and "Integer_inverse a m = Inl e"
  shows "Integer_inverse (- a) m = Inl e"
  using assms Integer_inverse_cases [of m a] Integer_inverse_cases [of m "- a"]
  by (auto split: if_splits)

lemma Integer_inverse_uminus_ok:
  assumes "1 < m" and "Integer_inverse a m = Inr i"
  shows "\<exists>j. Integer_inverse (- a) m = Inr j \<and> m dvd (i + j)"
proof -
  have g: "gcd a m = 1"
    using assms(2) Integer_inverse_coprime [OF assms(1), of a] by auto
  then have "gcd (- a) m = 1" by simp
  then obtain j where j: "Integer_inverse (- a) m = Inr j"
    using Integer_inverse_coprime [OF assms(1), of "- a"] by auto
  have "m dvd (a * i - 1)" by (rule Integer_inverse_dvd [OF assms])
  moreover have "m dvd (- a * j - 1)" by (rule Integer_inverse_dvd [OF assms(1) j])
  ultimately have "m dvd ((a * i - 1) - (- a * j - 1))" by (rule dvd_diff)
  moreover have "(a * i - 1) - (- a * j - 1) = a * (i + j)" by (simp add: algebra_simps)
  ultimately have "m dvd a * (i + j)" by simp
  moreover have "coprime m a" using g by (simp add: coprime_iff_gcd_eq_1 gcd.commute)
  ultimately have "m dvd (i + j)" by (simp add: coprime_dvd_mult_right_iff)
  with j show ?thesis by blast
qed


lemma add_p_while_negative_eq:
  "add_p_while_negative x = (if x < 0 then x mod curve_p else x)"
proof (induction x rule: add_p_while_negative.induct)
  case (1 x3)
  show ?case
  proof (cases "x3 < 0")
    case True
    note neg = True
    have step: "add_p_while_negative x3 = add_p_while_negative (x3 + curve_p)"
      using neg by (subst add_p_while_negative.simps) simp
    show ?thesis
    proof (cases "x3 + curve_p < 0")
      case True
      have "add_p_while_negative (x3 + curve_p) = (x3 + curve_p) mod curve_p"
        using "1.IH" [OF neg] True by simp
      then show ?thesis using step neg by simp
    next
      case False
      have "add_p_while_negative (x3 + curve_p) = x3 + curve_p"
        using "1.IH" [OF neg] False by simp
      moreover have "(x3 + curve_p) mod curve_p = x3 + curve_p"
        using False neg by (intro mod_pos_pos_trivial) simp_all
      ultimately show ?thesis using step neg by simp
    qed
  next
    case False
    then show ?thesis by (subst add_p_while_negative.simps) simp
  qed
qed

lemma add_p_while_negative_range:
  assumes "x < curve_p"
  shows "0 \<le> add_p_while_negative x \<and> add_p_while_negative x < curve_p"
  using assms curve_p_gt_1 by (simp add: add_p_while_negative_eq)


lemma EccPoint_init_sel [simp]:
  "ecc_x (EccPoint_init x y) = x"
  "ecc_y (EccPoint_init x y) = y"
  "ecc_precomp (EccPoint_init x y) = None"
  by (simp_all add: EccPoint_init_def)

definition chord_x :: "int \<Rightarrow> int \<Rightarrow> int \<Rightarrow> int" where
  "chord_x lam xa xb = add_p_while_negative ((lam\<^sup>2 mod curve_p) - xa - xb)"

definition chord_y :: "int \<Rightarrow> int \<Rightarrow> int \<Rightarrow> int \<Rightarrow> int" where
  "chord_y lam xa ya x3 = ((xa - x3) * lam - ya) mod curve_p"

definition chord_point :: "int \<Rightarrow> int \<Rightarrow> int \<Rightarrow> int \<Rightarrow> EccPoint" where
  "chord_point lam xa ya xb = EccPoint_init (chord_x lam xa xb) (chord_y lam xa ya (chord_x lam xa xb))"

lemma double_unfold:
  "double pt =
     (if ecc_y pt = 0 then Inr point_at_infinity
      else case Integer_inverse (2 * ecc_y pt) curve_p of
        Inl e \<Rightarrow> Inl e
      | Inr iv \<Rightarrow> Inr (chord_point ((((ecc_x pt)\<^sup>2 mod curve_p) * 3 - 3) * iv mod curve_p)
                        (ecc_x pt) (ecc_y pt) (ecc_x pt)))"
  by (simp add: double_def chord_point_def chord_x_def chord_y_def Let_def mult.commute
      split: sum.splits)

lemma add_unfold:
  "add pt qt =
     (if is_point_at_infinity pt then Inr (copy qt)
      else if is_point_at_infinity qt then Inr (copy pt)
      else if eq pt qt then double pt
      else if ecc_x pt = ecc_x qt then Inr point_at_infinity
      else case Integer_inverse (ecc_x qt - ecc_x pt) curve_p of
        Inl e \<Rightarrow> Inl e
      | Inr iv \<Rightarrow> Inr (chord_point ((ecc_y qt - ecc_y pt) * iv mod curve_p)
                        (ecc_x pt) (ecc_y pt) (ecc_x qt)))"
  by (simp add: add_def chord_point_def chord_x_def chord_y_def Let_def split: sum.splits)

definition in_range :: "EccPoint \<Rightarrow> bool" where
  "in_range pt = (0 \<le> ecc_x pt \<and> ecc_x pt < curve_p \<and> 0 \<le> ecc_y pt \<and> ecc_y pt < curve_p)"

lemma in_range_init [simp]:
  "in_range (EccPoint_init x y) = (0 \<le> x \<and> x < curve_p \<and> 0 \<le> y \<and> y < curve_p)"
  by (simp add: in_range_def)

lemma in_range_infinity [simp]: "in_range point_at_infinity"
  using curve_p_gt_1 by (simp add: point_at_infinity_def)

lemma in_range_copy [simp]: "in_range (copy pt) = in_range pt"
  by (simp add: copy_def in_range_def)

lemma chord_point_in_range:
  assumes "0 \<le> xa + xb"
  shows "in_range (chord_point lam xa ya xb)"
proof -
  have "(lam\<^sup>2 mod curve_p) < curve_p" using curve_p_gt_1 by simp
  then have "(lam\<^sup>2 mod curve_p) - xa - xb < curve_p"
    using assms by linarith
  from add_p_while_negative_range [OF this] show ?thesis
    using curve_p_gt_1 by (simp add: chord_point_def chord_x_def chord_y_def)
qed

lemma double_in_range:
  assumes "0 \<le> ecc_x pt" and "double pt = Inr r"
  shows "in_range r"
  using assms chord_point_in_range [of "ecc_x pt" "ecc_x pt"]
  by (auto simp: double_unfold split: if_splits sum.splits)

lemma add_in_range:
  assumes "in_range pt" and "in_range qt" and "add pt qt = Inr r"
  shows "in_range r"
proof -
  have x: "0 \<le> ecc_x pt" "0 \<le> ecc_x pt + ecc_x qt"
    using assms(1,2) by (simp_all add: in_range_def)
  show ?thesis
    using assms double_in_range [OF x(1)] chord_point_in_range [OF x(2)]
    by (auto simp: add_unfold split: if_splits sum.splits)
qed


lemma mod_dvd_diff: "(m::int) dvd (a mod m - a)"
proof -
  have "a mod m mod m = a mod m" by simp
  then show ?thesis by (simp only: mod_eq_dvd_iff)
qed

lemma chord_point_symmetric:
  assumes "curve_p dvd ((xa - xb) * lam - (ya - yb))"
  shows "chord_point lam xa ya xb = chord_point lam xb yb xa"
proof -
  have x: "chord_x lam xa xb = chord_x lam xb xa"
    by (simp add: chord_x_def algebra_simps)
  define x3 where "x3 = chord_x lam xb xa"
  have e: "((xa - x3) * lam - ya) - ((xb - x3) * lam - yb) = (xa - xb) * lam - (ya - yb)"
    by (simp add: algebra_simps)
  have "curve_p dvd (((xa - x3) * lam - ya) - ((xb - x3) * lam - yb))"
    unfolding e by (rule assms)
  then have "chord_y lam xa ya x3 = chord_y lam xb yb x3"
    by (simp add: chord_y_def mod_eq_dvd_iff)
  then show ?thesis
    by (simp add: chord_point_def x x3_def)
qed

lemma double_coords:
  assumes "eq pt qt"
  shows "double pt = double qt"
proof -
  from assms have x: "ecc_x pt = ecc_x qt" and y: "ecc_y pt = ecc_y qt"
    by (simp_all add: eq_def)
  show ?thesis by (simp only: double_unfold x y)
qed

lemma add_commute_general: "add pt qt = add qt pt"
proof -
  consider (a) "is_point_at_infinity pt" "is_point_at_infinity qt"
    | (b) "is_point_at_infinity pt" "\<not> is_point_at_infinity qt"
    | (c) "\<not> is_point_at_infinity pt" "is_point_at_infinity qt"
    | (d) "\<not> is_point_at_infinity pt" "\<not> is_point_at_infinity qt" "eq pt qt"
    | (e) "\<not> is_point_at_infinity pt" "\<not> is_point_at_infinity qt" "\<not> eq pt qt" "ecc_x pt = ecc_x qt"
    | (f) "\<not> is_point_at_infinity pt" "\<not> is_point_at_infinity qt" "ecc_x pt \<noteq> ecc_x qt"
    by blast
  then show ?thesis
  proof cases
    case a
    then show ?thesis by (simp add: add_unfold copy_def is_point_at_infinity_def)
  next
    case b
    then show ?thesis by (simp add: add_unfold)
  next
    case c
    then show ?thesis by (simp add: add_unfold)
  next
    case d
    then have "eq qt pt" by (auto simp: eq_def)
    then show ?thesis using d double_coords [OF d(3)] by (simp add: add_unfold)
  next
    case e
    then have "\<not> eq qt pt" by (auto simp: eq_def)
    then show ?thesis using e by (simp add: add_unfold)
  next
    case f
    then have ne: "\<not> eq pt qt" "\<not> eq qt pt" by (auto simp: eq_def)
    have sw: "ecc_x pt - ecc_x qt = - (ecc_x qt - ecc_x pt)" by simp
    show ?thesis
    proof (cases "Integer_inverse (ecc_x qt - ecc_x pt) curve_p")
      case (Inl e)
      then have "Integer_inverse (ecc_x pt - ecc_x qt) curve_p = Inl e"
        unfolding sw by (rule Integer_inverse_uminus_fail [OF curve_p_gt_1])
      then show ?thesis using f ne Inl by (simp add: add_unfold)
    next
      case (Inr i)
      obtain j where j: "Integer_inverse (ecc_x pt - ecc_x qt) curve_p = Inr j"
        and ij: "curve_p dvd (i + j)"
        using Integer_inverse_uminus_ok [OF curve_p_gt_1 Inr] unfolding sw by blast
      define c where "c = ecc_y qt - ecc_y pt"
      define lam where "lam = c * i mod curve_p"
      have e1: "(ecc_y pt - ecc_y qt) * j - c * i = - (c * (i + j))"
        unfolding c_def by (simp add: algebra_simps)
      have "curve_p dvd ((ecc_y pt - ecc_y qt) * j - c * i)"
        unfolding e1 using ij by simp
      then have lam': "(ecc_y pt - ecc_y qt) * j mod curve_p = lam"
        unfolding lam_def by (simp only: mod_eq_dvd_iff)
      have one: "curve_p dvd ((ecc_x qt - ecc_x pt) * i - 1)"
        by (rule Integer_inverse_dvd [OF curve_p_gt_1 Inr])
      have "curve_p dvd (lam - c * i)" unfolding lam_def by (rule mod_dvd_diff)
      then have "curve_p dvd (ecc_x pt - ecc_x qt) * (lam - c * i)" by (rule dvd_mult)
      moreover have "curve_p dvd c * ((ecc_x qt - ecc_x pt) * i - 1)" using one by (rule dvd_mult)
      ultimately have "curve_p dvd ((ecc_x pt - ecc_x qt) * (lam - c * i) - c * ((ecc_x qt - ecc_x pt) * i - 1))"
        by (rule dvd_diff)
      moreover have "(ecc_x pt - ecc_x qt) * (lam - c * i) - c * ((ecc_x qt - ecc_x pt) * i - 1)
          = (ecc_x pt - ecc_x qt) * lam - (ecc_y pt - ecc_y qt)"
        unfolding c_def by (simp add: algebra_simps)
      ultimately have "curve_p dvd ((ecc_x pt - ecc_x qt) * lam - (ecc_y pt - ecc_y qt))"
        by (simp only:)
      from chord_point_symmetric [OF this] show ?thesis
        using f ne Inr j lam' by (simp add: add_unfold lam_def c_def)
    qed
  qed
qed




lemma Integer_inverse_unique:
  assumes m: "1 < m" and i: "0 \<le> i" "i < m" and cert: "a * i = 1 + k * m"
  shows "Integer_inverse a m = Inr i"
proof -
  have "gcd a m dvd a * i" by simp
  moreover have "gcd a m dvd k * m" by simp
  ultimately have "gcd a m dvd a * i - k * m" by (rule dvd_diff)
  then have "gcd a m dvd 1" using cert by simp
  then have g: "gcd a m = 1" by simp
  then obtain j where j: "Integer_inverse a m = Inr j"
    using Integer_inverse_coprime [OF m, of a] by auto
  have jr: "0 \<le> j" "j < m" using Integer_inverse_correct [OF m j] by simp_all
  have "m dvd (a * j - 1)" by (rule Integer_inverse_dvd [OF m j])
  moreover have "m dvd (a * i - 1)" using cert by simp
  ultimately have "m dvd ((a * i - 1) - (a * j - 1))" by (rule dvd_diff [rotated])
  moreover have "(a * i - 1) - (a * j - 1) = a * (i - j)" by (simp add: algebra_simps)
  ultimately have "m dvd a * (i - j)" by simp
  moreover have "coprime m a" using g by (simp add: coprime_iff_gcd_eq_1 gcd.commute)
  ultimately have "m dvd (i - j)" by (simp add: coprime_dvd_mult_right_iff)
  moreover have "\<bar>i - j\<bar> < m" using i jr by linarith
  ultimately have "i - j = 0" using zdvd_not_zless [of "\<bar>i - j\<bar>" m] by (cases "i = j") auto
  then show ?thesis using j by simp
qed

lemma mod_certificate:
  assumes "(a::int) = r + k * m" and "0 \<le> r" and "r < m"
  shows "a mod m = r"
  using assms by simp

lemma G_not_infinity: "\<not> is_point_at_infinity curve_G"
  by (simp add: is_point_at_infinity_def curve_G_def curve_Gx_def)

lemma multiply_negative:
  "k < 0 \<Longrightarrow> multiply P k =
     (Inl (ValueError ''Scalar multiplication only defined for non-negative integers''), P)"
  by (simp add: multiply_def)

lemma multiply_zero_or_infinity:
  "0 \<le> k \<Longrightarrow> k = 0 \<or> is_point_at_infinity P \<Longrightarrow> multiply P k = (Inr point_at_infinity, P)"
  by (auto simp: multiply_def)

lemma multiply_one:
  "\<not> is_point_at_infinity P \<Longrightarrow> multiply P 1 = (Inr (copy P), P)"
  by (simp add: multiply_def)

lemma infinity_is_infinity [simp]: "is_point_at_infinity point_at_infinity"
  by (simp add: is_point_at_infinity_def point_at_infinity_def)

section \<open>The claims\<close>

text \<open>
  C10. Doubling the point at infinity returns the point at infinity without an error:
  the sentinel \<open>(0, 0)\<close> has \<open>y = 0\<close>, so the first branch of \<open>double\<close> returns before
  any inverse is taken.
\<close>

theorem double_infinity: "double point_at_infinity = Inr point_at_infinity"
  by (simp add: double_def point_at_infinity_def)

text \<open>
  C5, as stated, fails: \<open>multiply\<close> tests \<open>scalar < 0\<close> first, so the point at infinity
  multiplied by \<open>-1\<close> raises the \<open>ValueError\<close>; it does not return the point at infinity.
\<close>

theorem multiply_infinity_negative_raises:
  "is_point_at_infinity point_at_infinity \<and>
   fst (multiply point_at_infinity (- 1)) =
     Inl (ValueError ''Scalar multiplication only defined for non-negative integers'')"
  by (simp add: multiply_negative)

text \<open>
  C5, amended to the order of the code: a negative scalar raises the invalid-scalar
  \<open>ValueError\<close> whatever the point is; otherwise a scalar 0 or the point at infinity gives
  the point at infinity; otherwise the scalar 1 gives a copy that compares equal to the point.
\<close>

theorem multiply_trivial_cases:
  "(k < 0 \<longrightarrow> fst (multiply P k) =
      Inl (ValueError ''Scalar multiplication only defined for non-negative integers'')) \<and>
   (0 \<le> k \<and> (k = 0 \<or> is_point_at_infinity P) \<longrightarrow> fst (multiply P k) = Inr point_at_infinity) \<and>
   (k = 1 \<and> \<not> is_point_at_infinity P \<longrightarrow> fst (multiply P k) = Inr (copy P) \<and> eq (copy P) P)"
  by (auto simp: multiply_negative multiply_zero_or_infinity multiply_one eq_def copy_def)

theorem multiply_trivial_cases_witness:
  "fst (multiply curve_G (- 1)) =
      Inl (ValueError ''Scalar multiplication only defined for non-negative integers'') \<and>
   fst (multiply curve_G 0) = Inr point_at_infinity \<and>
   fst (multiply point_at_infinity 5) = Inr point_at_infinity \<and>
   fst (multiply curve_G 1) = Inr (copy curve_G) \<and> eq (copy curve_G) curve_G"
  using multiply_trivial_cases [of "- 1" curve_G] multiply_trivial_cases [of 0 curve_G]
    multiply_trivial_cases [of 5 point_at_infinity] multiply_trivial_cases [of 1 curve_G]
    G_not_infinity
  by simp

lemma multiply_snd:
  "snd (multiply P k) = P \<or> (\<exists>t. snd (multiply P k) = P\<lparr>ecc_precomp := Some t\<rparr>)"
  by (auto simp: multiply_def split: sum.splits option.splits)

text \<open>
  C9. The table \<open>_precomp\<close> that \<open>multiply\<close> stores in the point is not observable in the
  point's value: after \<open>P.multiply(k)\<close> (for every scalar, so for every \<open>k \<ge> 2\<close>) the
  coordinates of \<open>P\<close> are unchanged and \<open>P\<close> compares equal to exactly the same points as
  before, on either side of \<open>==\<close>; and \<open>__eq__\<close> gives the same answer whatever the cache
  holds.
\<close>

theorem multiply_cache_not_observable:
  "ecc_x (snd (multiply P k)) = ecc_x P \<and> ecc_y (snd (multiply P k)) = ecc_y P \<and>
   (\<forall>Q. eq (snd (multiply P k)) Q = eq P Q \<and> eq Q (snd (multiply P k)) = eq Q P) \<and>
   (\<forall>c Q. eq (P\<lparr>ecc_precomp := c\<rparr>) Q = eq P Q \<and> eq Q (P\<lparr>ecc_precomp := c\<rparr>) = eq Q P)"
  using multiply_snd [of P k] by (auto simp: eq_def)

lemma multiply_sets_cache:
  assumes "2 \<le> k" and "\<not> is_point_at_infinity P" and "ecc_precomp P = None"
    and "build_precomp P = Inr t"
  shows "snd (multiply P k) = P\<lparr>ecc_precomp := Some t\<rparr>"
  using assms by (simp add: multiply_def)

text \<open>
  C7. Addition is commutative: \<open>P.add(Q)\<close> and \<open>Q.add(P)\<close> return points that compare equal
  with \<open>==\<close> (or both raise the same error), for all points, the point at infinity, equal
  points and negated points included.
\<close>

theorem add_commutative: "rel_sum (=) eq (add P Q) (add Q P)"
proof (cases "add Q P")
  case (Inl e)
  then show ?thesis by (simp add: add_commute_general [of P Q])
next
  case (Inr R)
  then show ?thesis by (simp add: add_commute_general [of P Q] eq_def)
qed








text \<open>
  The negation \<open>__neg__\<close> is the one path that builds a coordinate without reducing it:
  \<open>p - y\<close> is \<open>p\<close> itself when \<open>y = 0\<close>, whereas \<open>double\<close> and \<open>add\<close> end every
  coordinate with the loop on \<open>x3\<close> and with \<open>% p\<close> (lemmas \<open>double_in_range\<close> and
  \<open>add_in_range\<close>).
\<close>

lemma neg_not_reduced:
  "in_range (EccPoint_init 1 0) \<and> neg (EccPoint_init 1 0) = EccPoint_init 1 curve_p \<and>
   \<not> in_range (neg (EccPoint_init 1 0))"
  using curve_p_gt_1 by (simp add: neg_def is_point_at_infinity_def)


lemma copy_sel [simp]:
  "ecc_x (copy pt) = ecc_x pt" "ecc_y (copy pt) = ecc_y pt" "ecc_precomp (copy pt) = None"
  by (simp_all add: copy_def)

lemma copy_infinity [simp]: "is_point_at_infinity (copy pt) = is_point_at_infinity pt"
  by (simp add: is_point_at_infinity_def)

lemma double_infinity_aux: "double point_at_infinity = Inr point_at_infinity"
  by (simp add: double_def point_at_infinity_def)

lemma add_infinity_left: "add point_at_infinity pt = Inr (copy pt)"
  by (simp add: add_def)

lemma add_opposite:
  assumes "\<not> is_point_at_infinity pt" and "\<not> is_point_at_infinity qt"
    and "ecc_x pt = ecc_x qt" and "ecc_y pt \<noteq> ecc_y qt"
  shows "add pt qt = Inr point_at_infinity"
  using assms by (simp add: add_def eq_def)

lemma neg_sel:
  assumes "\<not> is_point_at_infinity pt"
  shows "ecc_x (neg pt) = ecc_x pt" and "ecc_y (neg pt) = curve_p - ecc_y pt"
  using assms by (simp_all add: neg_def)

lemma x_of_infinity: "x_of point_at_infinity = Inl (ValueError ''Point at infinity'')"
  by (simp add: x_of_def)

lemma x_of_finite: "\<not> is_point_at_infinity pt \<Longrightarrow> x_of pt = Inr (ecc_x pt)"
  by (simp add: x_of_def)

text \<open>
  Modelled from the spec: the coefficient \<open>b\<close> of the curve equation
  \<open>y\<^sup>2 = x\<^sup>3 - 3x + b\<close>, which the spec names and ECC.py never uses; the value is the
  one of NIST P-256.
\<close>

definition curve_b :: int where
  "curve_b = 0x5ac635d8aa3a93e7b3ebbd55769886bc651d06b0cc53b0f63bce3c3e27d2604b"

definition on_curve :: "EccPoint \<Rightarrow> bool" where
  "on_curve pt =
     (((ecc_y pt)\<^sup>2 - ((ecc_x pt) ^ 3 - 3 * ecc_x pt + curve_b)) mod curve_p = 0)"

lemma on_curve_certificate:
  assumes "y * y + 3 * x + k * curve_p = x * x * x + curve_b"
  shows "on_curve (EccPoint_init x y)"
proof -
  have "y\<^sup>2 - (x ^ 3 - 3 * x + curve_b) = (- k) * curve_p"
    using assms by (simp add: power2_eq_square power3_eq_cube algebra_simps)
  then show ?thesis by (simp add: on_curve_def)
qed

lemma G_on_curve: "on_curve curve_G"
  unfolding curve_G_def
  by (rule on_curve_certificate [where k = "981570988164258562257936101525215858910690391106138407341175333813841188485201771743408849884010754226965632845910189239885256093057339116530079505515608"])
     (simp add: curve_Gx_def curve_Gy_def curve_p_def curve_b_def)

lemma G_in_range: "in_range curve_G"
  by (simp add: curve_G_def curve_Gx_def curve_Gy_def curve_p_def)

lemma inverse_of_one: "1 < m \<Longrightarrow> Integer_inverse 1 m = Inr 1"
  by (rule Integer_inverse_unique [where k = 0]) simp_all

lemma curve_order_gt_1: "1 < curve_order" by (simp add: curve_order_def)

lemma neg_G_not_infinity: "\<not> is_point_at_infinity (neg curve_G)"
  using G_not_infinity
  by (simp add: neg_def is_point_at_infinity_def curve_G_def curve_Gx_def)

text \<open>
  C3 against the code: the public key \<open>-G\<close> (the key of the private scalar
  \<open>order - 1\<close>) and \<open>z = 1\<close>, \<open>(r, s) = (1, 1)\<close> give \<open>u1 = u2 = 1\<close> and
  \<open>R = G + (-G)\<close>, the point at infinity; \<open>_verify\<close> then reads \<open>R.x\<close> and the
  \<open>ValueError\<close> of the accessor escapes: it does not return false.
\<close>

theorem verify_raises_at_infinity:
  "EccKey_init (Some ''P-256'') None (Some (neg curve_G)) =
     Inr \<lparr>key_curve = Some ''P-256'', key_d = None, key_point = Some (neg curve_G)\<rparr> \<and>
   verify \<lparr>key_curve = Some ''P-256'', key_d = None, key_point = Some (neg curve_G)\<rparr> 1 (1, 1) =
     Inl (ValueError ''Point at infinity'')"
proof -
  define K where "K = \<lparr>key_curve = Some ''P-256'', key_d = None, key_point = Some (neg curve_G)\<rparr>"
  have ne: "curve_Gy \<noteq> curve_p - curve_Gy"
    by (simp add: curve_Gy_def curve_p_def)
  have gy: "ecc_y curve_G = curve_Gy" by (simp add: curve_G_def)
  have "ecc_y (copy curve_G) \<noteq> ecc_y (copy (neg curve_G))"
    using ne by (simp add: neg_sel [OF G_not_infinity] gy)
  then have sum: "add (copy curve_G) (copy (neg curve_G)) = Inr point_at_infinity"
    using G_not_infinity neg_G_not_infinity
    by (intro add_opposite) (simp_all add: neg_sel [OF G_not_infinity])
  have q: "pointQ K = Inr (neg curve_G)" by (simp add: pointQ_def K_def)
  have one: "(1 * 1) mod curve_order = 1" using curve_order_gt_1 by simp
  have "verify K 1 (1, 1) = Inl (ValueError ''Point at infinity'')"
    by (simp only: verify_def fst_conv snd_conv inverse_of_one [OF curve_order_gt_1] sum.case
        one multiply_one [OF G_not_infinity] multiply_one [OF neg_G_not_infinity] q sum
        x_of_infinity)
  moreover have "EccKey_init (Some ''P-256'') None (Some (neg curve_G)) = Inr K"
    by (simp add: EccKey_init_def K_def)
  ultimately show ?thesis unfolding K_def by simp
qed

text \<open>
  C4 against the code: on the public-only key of the point \<open>G\<close>, \<open>_sign(1, 1)\<close> computes
  \<open>G.multiply(1)\<close>, \<open>r\<close> and the inverse of \<open>k\<close>, and then fails on \<open>self._d * r\<close>
  with the interpreter's type error; the error of the accessor \<open>d\<close>, "This is not a
  private ECC key", is never raised by \<open>_sign\<close>.
\<close>

theorem sign_without_private_key:
  "EccKey_init (Some ''P-256'') None (Some curve_G) =
     Inr \<lparr>key_curve = Some ''P-256'', key_d = None, key_point = Some curve_G\<rparr> \<and>
   \<not> has_private \<lparr>key_curve = Some ''P-256'', key_d = None, key_point = Some curve_G\<rparr> \<and>
   sign \<lparr>key_curve = Some ''P-256'', key_d = None, key_point = Some curve_G\<rparr> 1 1 = Inl TypeError \<and>
   d_of \<lparr>key_curve = Some ''P-256'', key_d = None, key_point = Some curve_G\<rparr> =
     Inl (ValueError ''This is not a private ECC key'')"
proof -
  have "\<not> is_point_at_infinity (copy curve_G)"
    using G_not_infinity by (simp add: copy_def is_point_at_infinity_def)
  then show ?thesis
    using G_not_infinity curve_order_gt_1
    by (simp add: EccKey_init_def sign_def has_private_def d_of_def inverse_of_one multiply_one x_of_def)
qed

lemma infinity_sel [simp]:
  "ecc_x point_at_infinity = 0" "ecc_y point_at_infinity = 0"
  "ecc_precomp point_at_infinity = None"
  by (simp_all add: point_at_infinity_def)

lemma copy_infinity_eq: "copy point_at_infinity = point_at_infinity"
  by (simp add: copy_def point_at_infinity_def)

lemma neg_infinity: "neg (EccPoint_init 0 0) = point_at_infinity"
  by (simp add: neg_def is_point_at_infinity_def)

definition high_x_point :: EccPoint where
  "high_x_point = EccPoint_init 115792089210356248762697446949407573529996955224135760342422259061068512044372 32706189264453802455814072046653030381229678745603722161528888200092968145471"

lemma high_x_point_on_curve: "on_curve high_x_point"
  unfolding high_x_point_def
  by (rule on_curve_certificate [where k = "13407807923699100001122556707991011683528817495350537308357790236069576340752179246579763519862512708635589936980257536040664028757933888971320989288759282"])
     (simp add: curve_p_def curve_b_def)

lemma inverse_of_three: "Integer_inverse 3 curve_order = Inr 77194726140237499175131631299605049019997970149423840228281506040712341362913"
  by (rule Integer_inverse_unique [where k = 2]) (simp_all add: curve_order_def)

text \<open>
  C2 against the code: \<open>high_x_point\<close> is a point of the curve whose \<open>x\<close> is
  \<open>order + 3\<close>. As a public key, with \<open>z = 0\<close> and \<open>(r, s) = (3, 3)\<close>, it gives
  \<open>u1 = 0\<close>, \<open>u2 = 1\<close> and \<open>R\<close> equal to that point: \<open>R\<close> is not the point at infinity and
  \<open>R.x mod order = 3 = r\<close>, yet \<open>_verify\<close> compares the unreduced \<open>R.x\<close> with \<open>r\<close> and
  returns false.
\<close>

theorem verify_rejects_unreduced_x:
  "EccKey_init (Some ''P-256'') None (Some high_x_point) =
     Inr \<lparr>key_curve = Some ''P-256'', key_d = None, key_point = Some high_x_point\<rparr> \<and>
   on_curve high_x_point \<and> in_range high_x_point \<and>
   Integer_inverse 3 curve_order = Inr 77194726140237499175131631299605049019997970149423840228281506040712341362913 \<and>
   fst (multiply curve_G ((77194726140237499175131631299605049019997970149423840228281506040712341362913 * 0) mod curve_order)) = Inr point_at_infinity \<and>
   fst (multiply high_x_point ((77194726140237499175131631299605049019997970149423840228281506040712341362913 * 3) mod curve_order)) = Inr (copy high_x_point) \<and>
   add point_at_infinity (copy high_x_point) = Inr (copy (copy high_x_point)) \<and>
   \<not> is_point_at_infinity (copy (copy high_x_point)) \<and>
   ecc_x (copy (copy high_x_point)) mod curve_order = 3 \<and>
   verify \<lparr>key_curve = Some ''P-256'', key_d = None, key_point = Some high_x_point\<rparr> 0 (3, 3) =
     Inr False"
proof -
  define K where "K = \<lparr>key_curve = Some ''P-256'', key_d = None, key_point = Some high_x_point\<rparr>"
  define w :: int where "w = 77194726140237499175131631299605049019997970149423840228281506040712341362913"
  have iv: "Integer_inverse 3 curve_order = Inr w"
    unfolding w_def by (rule inverse_of_three)
  have m0: "(w * 0) mod curve_order = 0" by simp
  have m1: "(w * 3) mod curve_order = 1"
    unfolding w_def by (rule mod_certificate [where k = 2]) (simp_all add: curve_order_def)
  have ni: "\<not> is_point_at_infinity high_x_point"
    by (simp add: high_x_point_def is_point_at_infinity_def)
  have nic: "\<not> is_point_at_infinity (copy (copy high_x_point))"
    using ni by simp
  have xm: "ecc_x (copy (copy high_x_point)) mod curve_order = 3"
    unfolding copy_sel high_x_point_def EccPoint_init_sel
    by (rule mod_certificate [where k = 1]) (simp_all add: curve_order_def)
  have xne: "(ecc_x (copy (copy high_x_point)) = 3) = False"
    by (simp add: high_x_point_def)
  have rg: "in_range high_x_point"
    by (simp add: high_x_point_def curve_p_def)
  have q: "pointQ K = Inr high_x_point" by (simp add: pointQ_def K_def)
  have g0: "multiply curve_G 0 = (Inr point_at_infinity, curve_G)"
    by (rule multiply_zero_or_infinity) simp_all
  have v: "verify K 0 (3, 3) = Inr False"
    by (simp only: verify_def fst_conv snd_conv iv sum.case m0 m1 g0 q
        multiply_one [OF ni] add_infinity_left x_of_finite [OF nic] xne)
  have k: "EccKey_init (Some ''P-256'') None (Some high_x_point) = Inr K"
    by (simp add: EccKey_init_def K_def)
  show ?thesis
    using k v rg high_x_point_on_curve iv nic xm
    unfolding K_def w_def m0 [unfolded w_def] m1 [unfolded w_def]
    by (simp only: g0 multiply_one [OF ni] add_infinity_left fst_conv simp_thms)
qed


end
